theory Spec2Isabelle
  imports Main
begin

section \<open>The offline event queue of mobile-pulse (OfflineQueue.ts)\<close>

text \<open>
  A shallow embedding of the class \<open>OfflineQueue\<close>: the persisted event list kept under
  the AsyncStorage key \<open>events\<close>, the append operation \<open>saveEvent\<close>, and the batched
  upload pipeline \<open>uploadEvents\<close> / \<open>uploadBatch\<close> with its two store updates
  \<open>removeUploadedEvents\<close> and \<open>handleUploadFailure\<close>.

  What the embedding fixes:
  \<^item> JavaScript numbers are modelled as \<open>int\<close> (no rounding beyond \<open>2^53\<close>, no fractions).
  \<^item> \<open>JSON.stringify\<close> yields the JSON value as a tree (\<open>json\<close>), not its text; the
    payload \<open>data\<close> of an event is such a tree, so it always serialises and survives a
    round trip through the storage unchanged.
  \<^item> Every asynchronous method runs to completion without interleaving (the
    single-flight flag is treated separately, at the end of the definitions), and the
    availability of the medium is fixed while one method runs.
  \<^item> The outside world is explicit: whether AsyncStorage reads and writes reject, what
    the k-th call of \<open>fetch\<close> answers, what \<open>Date.now()\<close>, \<open>Math.random()\<close> and
    \<open>NetInfo.fetch()\<close> return. \<open>console\<close> output is not modelled.
\<close>

subsection \<open>Data\<close>

datatype json =
  JNull | JBool bool | JNum int | JStr string | JArr "json list" | JObj "(string \<times> json) list"

datatype EventType = crash | performance | network | session | custom

record UploadConfig =
  serverUrl :: string
  apiKey :: "string option"
  batchSize :: int
  maxRetries :: int
  retryDelay :: int

record QueuedEvent =
  id' :: string
  timestamp :: int
  type :: EventType
  data :: json
  retryCount :: int
  maxRetries :: int

text \<open>The defaults of the constructor (before the caller's partial configuration is spread
  over them).\<close>

definition defaultConfig :: UploadConfig where
  "defaultConfig =
     \<lparr>serverUrl = ''https://your-server.com/upload'', apiKey = None, batchSize = 50,
      maxRetries = 3, retryDelay = 5000\<rparr>"

datatype error = StorageError | TransportError | ServerError int

text \<open>How an \<open>async\<close> method ends: its promise resolves with a value or rejects.\<close>

datatype 'a promise = Resolved 'a | Rejected error

text \<open>The string kept under the key \<open>events\<close>: the serialisation of an event list, or text
  that \<open>JSON.parse\<close> rejects. \<open>None\<close> is the absent item (\<open>getItem\<close> gives \<open>null\<close>); the
  empty string, which the code reads like the absent item, is not told apart from it.\<close>

datatype stored = Serialized "QueuedEvent list" | Unparseable

text \<open>What \<open>fetch\<close> does: it resolves with a response of some status, or rejects
  (transport error, timeout).\<close>

datatype response = Response int | NetworkFailure

datatype netinfo = NetInfoFails | NetInfo "bool option"

record request =
  "method" :: string
  url :: string
  headers :: "(string \<times> string) list"
  body :: json

text \<open>
  The state the queue works on: the storage item together with the availability of the
  medium (\<open>getFails\<close>: \<open>AsyncStorage.getItem\<close> rejects, \<open>setFails\<close>:
  \<open>AsyncStorage.setItem\<close> rejects), the fields \<open>isUploading\<close> and \<open>uploadInterval\<close>
  of the queue object (the latter: the delay of a pending debounce timer), the log of
  the requests handed to \<open>fetch\<close> so far, and the log of the lists handed to
  \<open>AsyncStorage.setItem\<close> so far, one entry for every call, whether or not the write
  went through.
\<close>

record world =
  item :: "stored option"
  getFails :: bool
  setFails :: bool
  isUploading :: bool
  uploadInterval :: "int option"
  requests :: "request list"
  writes :: "QueuedEvent list list"

text \<open>The environment of an upload run: the answer to the k-th request ever sent, the
  value of \<open>Date.now()\<close> when the k-th request is built, and the connectivity probe.\<close>

record env =
  fetch :: "nat \<Rightarrow> response"
  dateNow :: "nat \<Rightarrow> int"
  netInfo :: netinfo

text \<open>What one call of \<open>saveEvent\<close> reads from the clock and the random source:
  \<open>Date.now()\<close> inside \<open>generateEventId\<close>, \<open>Math.random().toString(36)\<close>, and
  \<open>Date.now()\<close> for the field \<open>timestamp\<close>.\<close>

record stamp =
  idNow :: int
  random36 :: string
  tsNow :: int

definition initial :: world where
  "initial =
     \<lparr>item = None, getFails = False, setFails = False, isUploading = False,
      uploadInterval = None, requests = [], writes = []\<rparr>"

subsection \<open>Helpers of the JavaScript library\<close>

fun showNat :: "nat \<Rightarrow> string" where
  "showNat n =
     (if n < 10 then [char_of (48 + n)] else showNat (n div 10) @ [char_of (48 + n mod 10)])"

declare showNat.simps [simp del]

definition showInt :: "int \<Rightarrow> string" where
  "showInt i = (if i < 0 then CHR ''-'' # showNat (nat (- i)) else showNat (nat i))"

text \<open>\<open>Array.prototype.findIndex\<close>; \<open>None\<close> stands for the result \<open>-1\<close>.\<close>

fun findIndex :: "('a \<Rightarrow> bool) \<Rightarrow> 'a list \<Rightarrow> nat option" where
  "findIndex P [] = None"
| "findIndex P (x # xs) = (if P x then Some 0 else map_option Suc (findIndex P xs))"

text \<open>\<open>xs.splice(start, count)\<close>: the array after the removal.\<close>

definition splice :: "nat \<Rightarrow> nat \<Rightarrow> 'a list \<Rightarrow> 'a list" where
  "splice start count xs = take start xs @ drop (start + count) xs"

text \<open>\<open>xs.slice(start, end)\<close> on integers, negative indices counting from the end.\<close>

definition slice :: "'a list \<Rightarrow> int \<Rightarrow> int \<Rightarrow> 'a list" where
  "slice xs start end =
     (let n = int (length xs);
          k = (if start < 0 then max (n + start) 0 else min start n);
          final = (if end < 0 then max (n + end) 0 else min end n)
      in take (nat (final - k)) (drop (nat k) xs))"

text \<open>\<open>response.ok\<close>: the status is in the range 200 to 299.\<close>

definition ok :: "int \<Rightarrow> bool" where
  "ok status = (200 \<le> status \<and> status \<le> 299)"

fun typeName :: "EventType \<Rightarrow> string" where
  "typeName crash = ''crash''"
| "typeName performance = ''performance''"
| "typeName network = ''network''"
| "typeName session = ''session''"
| "typeName custom = ''custom''"

text \<open>An event as \<open>JSON.stringify\<close> writes it; the keys in the order \<open>saveEvent\<close> builds
  the object.\<close>

definition eventJSON :: "QueuedEvent \<Rightarrow> json" where
  "eventJSON e =
     JObj [(''id'', JStr (id' e)), (''timestamp'', JNum (timestamp e)),
           (''retryCount'', JNum (retryCount e)), (''maxRetries'', JNum (maxRetries e)),
           (''type'', JStr (typeName (type e))), (''data'', data e)]"

subsection \<open>Storage access\<close>

text \<open>\<open>getStoredEvents\<close>: a rejected read and a parse error are both caught and give the
  empty list.\<close>

definition getStoredEvents :: "world \<Rightarrow> QueuedEvent list" where
  "getStoredEvents w =
     (if getFails w then []
      else case item w of
             None \<Rightarrow> []
           | Some Unparseable \<Rightarrow> []
           | Some (Serialized events) \<Rightarrow> events)"

text \<open>\<open>await AsyncStorage.setItem('events', JSON.stringify(events))\<close>.\<close>

definition setItem :: "world \<Rightarrow> QueuedEvent list \<Rightarrow> unit promise \<times> world" where
  "setItem w events =
     (let w1 = w\<lparr>writes := writes w @ [events]\<rparr>
      in if setFails w then (Rejected StorageError, w1)
         else (Resolved (), w1\<lparr>item := Some (Serialized events)\<rparr>))"

text \<open>The list the storage item holds, whether or not it can be read at the moment.\<close>

definition persisted :: "world \<Rightarrow> QueuedEvent list" where
  "persisted w = (case item w of Some (Serialized events) \<Rightarrow> events | _ \<Rightarrow> [])"

definition getQueueSize :: "world \<Rightarrow> nat" where
  "getQueueSize w = length (getStoredEvents w)"

subsection \<open>saveEvent\<close>

definition generateEventId :: "int \<Rightarrow> string \<Rightarrow> string" where
  "generateEventId now r = ''event_'' @ showInt now @ ''_'' @ take 9 (drop 2 r)"

text \<open>\<open>tryUpload\<close> replaces a pending debounce timer by a new one of 2000 ms.\<close>

definition tryUpload :: "world \<Rightarrow> world" where
  "tryUpload w = w\<lparr>uploadInterval := Some 2000\<rparr>"

definition newEvent :: "UploadConfig \<Rightarrow> stamp \<Rightarrow> EventType \<times> json \<Rightarrow> QueuedEvent" where
  "newEvent cfg s event =
     \<lparr>id' = generateEventId (idNow s) (random36 s), timestamp = tsNow s,
      type = fst event, data = snd event,
      retryCount = 0, maxRetries = UploadConfig.maxRetries cfg\<rparr>"

text \<open>The whole body is inside \<open>try\<close>; the \<open>catch\<close> logs and returns, so the promise
  resolves on both paths.\<close>

definition saveEvent ::
  "UploadConfig \<Rightarrow> world \<Rightarrow> stamp \<Rightarrow> EventType \<times> json \<Rightarrow> unit promise \<times> world" where
  "saveEvent cfg w s event =
     (let queuedEvent = newEvent cfg s event;
          events = getStoredEvents w @ [queuedEvent];
          events = (if length events > 1000
                    then splice 0 (length events - 1000) events else events)
      in case setItem w events of
           (Resolved _, w') \<Rightarrow> (Resolved (), tryUpload w')
         | (Rejected err, w') \<Rightarrow> (Resolved (), w'))"

subsection \<open>The two store updates of the upload pipeline\<close>

text \<open>The body of the loop of \<open>handleUploadFailure\<close> for one event of the failed batch.\<close>

definition failureStep :: "QueuedEvent \<Rightarrow> QueuedEvent list \<Rightarrow> QueuedEvent list" where
  "failureStep failedEvent events =
     (case findIndex (\<lambda>e. id' e = id' failedEvent) events of
        None \<Rightarrow> events
      | Some eventIndex \<Rightarrow>
          (let events1 = events[eventIndex :=
                 (events ! eventIndex)\<lparr>retryCount := retryCount (events ! eventIndex) + 1\<rparr>]
           in if retryCount (events1 ! eventIndex) \<ge> maxRetries (events1 ! eventIndex)
              then splice eventIndex 1 events1
              else events1))"

definition handleUploadFailure :: "world \<Rightarrow> QueuedEvent list \<Rightarrow> unit promise \<times> world" where
  "handleUploadFailure w batch = setItem w (fold failureStep batch (getStoredEvents w))"

definition removeUploadedEvents :: "world \<Rightarrow> QueuedEvent list \<Rightarrow> unit promise \<times> world" where
  "removeUploadedEvents w uploadedBatch =
     (let events = getStoredEvents w;
          uploadedIds = set (map id' uploadedBatch);
          remainingEvents = filter (\<lambda>e. id' e \<notin> uploadedIds) events
      in setItem w remainingEvents)"

subsection \<open>uploadBatch and uploadEvents\<close>

definition batchRequest :: "UploadConfig \<Rightarrow> int \<Rightarrow> QueuedEvent list \<Rightarrow> request" where
  "batchRequest cfg now batch =
     \<lparr>method = ''POST'', url = serverUrl cfg,
      headers = (''Content-Type'', ''application/json'') #
        (case apiKey cfg of
           None \<Rightarrow> []
         | Some key \<Rightarrow> if key = [] then [] else [(''Authorization'', ''Bearer '' @ key)]),
      body = JObj [(''events'', JArr (map eventJSON batch)), (''timestamp'', JNum now)]\<rparr>"

text \<open>A failure inside \<open>try\<close> (a rejected \<open>fetch\<close>, a response that is not ok, a rejected
  write of \<open>removeUploadedEvents\<close>) is caught and followed by \<open>handleUploadFailure\<close>, whose
  own failure leaves the method.\<close>

definition uploadBatch ::
  "UploadConfig \<Rightarrow> env \<Rightarrow> world \<Rightarrow> QueuedEvent list \<Rightarrow> unit promise \<times> world" where
  "uploadBatch cfg en w batch =
     (let k = length (requests w);
          w1 = w\<lparr>requests := requests w @ [batchRequest cfg (dateNow en k) batch]\<rparr>;
          attempt =
            (case fetch en k of
               NetworkFailure \<Rightarrow> (Rejected TransportError, w1)
             | Response status \<Rightarrow>
                 if \<not> ok status then (Rejected (ServerError status), w1)
                 else removeUploadedEvents w1 batch)
      in case attempt of
           (Resolved _, w2) \<Rightarrow> (Resolved (), w2)
         | (Rejected err, w2) \<Rightarrow> handleUploadFailure w2 batch)"

text \<open>The loop of \<open>createBatches\<close>. With a step that is not positive it never ends, which
  is the value \<open>None\<close>.\<close>

partial_function (option) createBatchesFrom ::
  "'a list \<Rightarrow> int \<Rightarrow> int \<Rightarrow> 'a list list \<Rightarrow> 'a list list option" where
  [code]: "createBatchesFrom events batchSize' i batches =
     (if i < int (length events)
      then createBatchesFrom events batchSize' (i + batchSize')
             (batches @ [slice events i (i + batchSize')])
      else Some batches)"

definition createBatches :: "'a list \<Rightarrow> int \<Rightarrow> 'a list list option" where
  "createBatches events batchSize' = createBatchesFrom events batchSize' 0 []"

definition isOnline :: "env \<Rightarrow> bool" where
  "isOnline en =
     (case netInfo en of
        NetInfoFails \<Rightarrow> False
      | NetInfo None \<Rightarrow> False
      | NetInfo (Some connected) \<Rightarrow> connected)"

text \<open>The loop \<open>for (const batch of batches) await this.uploadBatch(batch)\<close>.\<close>

fun uploadBatches ::
  "UploadConfig \<Rightarrow> env \<Rightarrow> world \<Rightarrow> QueuedEvent list list \<Rightarrow> unit promise \<times> world" where
  "uploadBatches cfg en w [] = (Resolved (), w)"
| "uploadBatches cfg en w (batch # batches) =
     (case uploadBatch cfg en w batch of
        (Resolved _, w') \<Rightarrow> uploadBatches cfg en w' batches
      | (Rejected err, w') \<Rightarrow> (Rejected err, w'))"

text \<open>\<open>uploadEvents\<close>: the guard is outside \<open>try\<close>; \<open>catch\<close> swallows what the loop
  throws and \<open>finally\<close> clears the flag on every path through \<open>try\<close>.\<close>

definition uploadEvents ::
  "UploadConfig \<Rightarrow> env \<Rightarrow> world \<Rightarrow> (unit promise \<times> world) option" where
  "uploadEvents cfg en w =
     (if isUploading w then Some (Resolved (), w)
      else
        let w1 = w\<lparr>isUploading := True\<rparr>;
            events = getStoredEvents w1
        in if length events = 0 then Some (Resolved (), w1\<lparr>isUploading := False\<rparr>)
           else if \<not> isOnline en then Some (Resolved (), w1\<lparr>isUploading := False\<rparr>)
           else case createBatches events (batchSize cfg) of
                  None \<Rightarrow> None
                | Some batches \<Rightarrow>
                    (case uploadBatches cfg en w1 batches of
                       (outcome, w2) \<Rightarrow> Some (Resolved (), w2\<lparr>isUploading := False\<rparr>)))"

subsection \<open>Sequences of operations\<close>

text \<open>A sequence of calls of \<open>saveEvent\<close>. Each call comes with the availability of the
  medium while it runs (\<open>getItem\<close> rejects, \<open>setItem\<close> rejects), its readings of the
  clock and the random source, and the producer's event.\<close>

type_synonym save_call = "bool \<times> bool \<times> stamp \<times> (EventType \<times> json)"

definition saveCall :: "UploadConfig \<Rightarrow> save_call \<Rightarrow> world \<Rightarrow> world" where
  "saveCall cfg c w =
     (case c of (g, s, st, event) \<Rightarrow>
        snd (saveEvent cfg (w\<lparr>getFails := g, setFails := s\<rparr>) st event))"

definition saveEvents :: "UploadConfig \<Rightarrow> world \<Rightarrow> save_call list \<Rightarrow> world" where
  "saveEvents cfg w calls = fold (saveCall cfg) calls w"

definition healthy :: "save_call \<Rightarrow> bool" where
  "healthy c = (case c of (g, s, st, event) \<Rightarrow> \<not> g \<and> \<not> s)"

definition appended :: "UploadConfig \<Rightarrow> save_call \<Rightarrow> QueuedEvent" where
  "appended cfg c = (case c of (g, s, st, event) \<Rightarrow> newEvent cfg st event)"

text \<open>The newest \<open>n\<close> elements of a list, in their order.\<close>

definition newest :: "nat \<Rightarrow> 'a list \<Rightarrow> 'a list" where
  "newest n xs = drop (length xs - n) xs"


subsection \<open>Reference functions the operations are compared with\<close>

text \<open>Consecutive pieces of at most \<open>n\<close> elements.\<close>

function chunks :: "nat \<Rightarrow> 'a list \<Rightarrow> 'a list list" where
  "chunks n xs = (if n = 0 \<or> xs = [] then [] else take n xs # chunks n (drop n xs))"
  by pat_completeness auto
termination
  by (relation "measure (\<lambda>(n, xs). length xs)") auto

declare chunks.simps [simp del]

text \<open>Retry accounting for one stored event, given the ids of the failed batch: an event
  of the batch gets one more retry and is dropped when that reaches its own
  \<open>maxRetries\<close>; any other event is kept as it is.\<close>

definition retryOrEvict :: "string set \<Rightarrow> QueuedEvent \<Rightarrow> QueuedEvent option" where
  "retryOrEvict ids e =
     (if id' e \<in> ids
      then (if retryCount e + 1 \<ge> maxRetries e then None
            else Some (e\<lparr>retryCount := retryCount e + 1\<rparr>))
      else Some e)"



text \<open>What the answer to a batch's request does to the stored list when the storage
  works: removal of the batch's ids after an ok response, the loop of
  \<open>handleUploadFailure\<close> otherwise.\<close>

definition settle :: "response \<Rightarrow> QueuedEvent list \<Rightarrow> QueuedEvent list \<Rightarrow> QueuedEvent list" where
  "settle r batch events =
     (case r of
        NetworkFailure \<Rightarrow> fold failureStep batch events
      | Response status \<Rightarrow>
          if ok status then filter (\<lambda>e. id' e \<notin> set (map id' batch)) events
          else fold failureStep batch events)"

fun settleAll :: "env \<Rightarrow> nat \<Rightarrow> QueuedEvent list list \<Rightarrow> QueuedEvent list \<Rightarrow> QueuedEvent list" where
  "settleAll en k [] events = events"
| "settleAll en k (batch # batches) events =
     settleAll en (Suc k) batches (settle (fetch en k) batch events)"

text \<open>The lists written to the storage on the way, one for every batch.\<close>

fun settleWrites ::
  "env \<Rightarrow> nat \<Rightarrow> QueuedEvent list list \<Rightarrow> QueuedEvent list \<Rightarrow> QueuedEvent list list" where
  "settleWrites en k [] events = []"
| "settleWrites en k (batch # batches) events =
     settle (fetch en k) batch events #
     settleWrites en (Suc k) batches (settle (fetch en k) batch events)"

fun batchRequests :: "UploadConfig \<Rightarrow> env \<Rightarrow> nat \<Rightarrow> QueuedEvent list list \<Rightarrow> request list" where
  "batchRequests cfg en k [] = []"
| "batchRequests cfg en k (batch # batches) =
     batchRequest cfg (dateNow en k) batch # batchRequests cfg en (Suc k) batches"

text \<open>The value of a key of a JSON object.\<close>

definition field :: "json \<Rightarrow> string \<Rightarrow> json option" where
  "field j key = (case j of JObj kvs \<Rightarrow> map_of kvs key | _ \<Rightarrow> None)"

subsection \<open>Interleaved calls of uploadEvents\<close>

text \<open>
  The methods above run a call to its end. Calls of \<open>uploadEvents\<close> from the debounce
  timer, the interval timer and the host application interleave, but only at an
  \<open>await\<close>: JavaScript runs a function without interruption up to its next \<open>await\<close>.
  So a call executes the guard \<open>if (this.isUploading) return\<close> and the assignment
  \<open>this.isUploading = true\<close> in one step, is then suspended inside \<open>try\<close> at the awaits
  of storage and network, and in a last step leaves through \<open>finally\<close>, which clears the
  flag. The state below keeps the flag and, for every call made so far, whether it is
  inside \<open>try\<close> or has returned.

  The flag has a third writer. \<open>MobilePulseSDK.configureOfflineQueue\<close>, which
  \<open>initialize\<close> calls, runs \<open>Object.assign(offlineQueue, new OfflineQueue(uploadConfig))\<close>:
  it copies every field of a fresh queue object over the singleton, \<open>isUploading = false\<close>
  among them. It has no \<open>await\<close> and can run whenever a run is suspended.
\<close>

datatype run = InFlight | Returned

record flights =
  uploading :: bool
  runs :: "run list"

definition idle :: flights where
  "idle = \<lparr>uploading = False, runs = []\<rparr>"

text \<open>A call of \<open>uploadEvents\<close>, up to its first \<open>await\<close>: it returns at once when the
  flag is set; otherwise it sets the flag and is in flight.\<close>

definition call :: "flights \<Rightarrow> flights" where
  "call s =
     (if uploading s then s\<lparr>runs := runs s @ [Returned]\<rparr>
      else s\<lparr>uploading := True, runs := runs s @ [InFlight]\<rparr>)"

text \<open>The \<open>finally\<close> block of the run that call number \<open>i\<close> started.\<close>

definition finish :: "nat \<Rightarrow> flights \<Rightarrow> flights" where
  "finish i s = s\<lparr>uploading := False, runs := (runs s)[i := Returned]\<rparr>"

text \<open>\<open>configureOfflineQueue\<close>: the fields of the fresh object replace the singleton's;
  the runs that are suspended stay suspended.\<close>

definition reconfigure :: "flights \<Rightarrow> flights" where
  "reconfigure s = s\<lparr>uploading := False\<rparr>"

inductive interleaving :: "flights \<Rightarrow> bool" where
  nothing: "interleaving idle"
| called: "interleaving s \<Longrightarrow> interleaving (call s)"
| finished: "interleaving s \<Longrightarrow> i < length (runs s) \<Longrightarrow> runs s ! i = InFlight \<Longrightarrow>
            interleaving (finish i s)"
| reconfigured: "interleaving s \<Longrightarrow> interleaving (reconfigure s)"

definition inFlight :: "flights \<Rightarrow> nat" where
  "inFlight s = length (filter (\<lambda>r. r = InFlight) (runs s))"

subsection \<open>Concrete inputs\<close>

definition exampleEvent :: "string \<Rightarrow> QueuedEvent" where
  "exampleEvent i =
     \<lparr>id' = i, timestamp = 0, type = custom, data = JNull, retryCount = 0, maxRetries = 3\<rparr>"

definition exampleStamp :: stamp where
  "exampleStamp = \<lparr>idNow = 1700000000000, random36 = ''0.4fzyo82mvyr'', tsNow = 1700000000000\<rparr>"

definition store :: "QueuedEvent list \<Rightarrow> world" where
  "store events = initial\<lparr>item := Some (Serialized events)\<rparr>"

text \<open>A server that rejects the first request with status 500 and accepts every later
  one; the device is online.\<close>

definition failFirst :: env where
  "failFirst =
     \<lparr>fetch = (\<lambda>k. if k = 0 then Response 500 else Response 200),
      dateNow = (\<lambda>k. 1700000000000 + int k), netInfo = NetInfo (Some True)\<rparr>"

text \<open>A server that accepts every request with status 204.\<close>

definition acceptAll :: env where
  "acceptAll =
     \<lparr>fetch = (\<lambda>k. Response 204),
      dateNow = (\<lambda>k. 1700000000000 + int k), netInfo = NetInfo (Some True)\<rparr>"

section \<open>Basic facts about the storage access\<close>

lemma getStoredEvents_fields:
  "getStoredEvents (w\<lparr>isUploading := b\<rparr>) = getStoredEvents w"
  "getStoredEvents (w\<lparr>requests := r\<rparr>) = getStoredEvents w"
  "getStoredEvents (w\<lparr>uploadInterval := u\<rparr>) = getStoredEvents w"
  "getStoredEvents (w\<lparr>writes := ws\<rparr>) = getStoredEvents w"
  by (simp_all add: getStoredEvents_def)

lemma getStoredEvents_healthy: "\<not> getFails w \<Longrightarrow> getStoredEvents w = persisted w"
  by (simp add: getStoredEvents_def persisted_def split: option.splits stored.splits)


lemma persisted_fields:
  "persisted (w\<lparr>isUploading := b\<rparr>) = persisted w"
  "persisted (w\<lparr>requests := r\<rparr>) = persisted w"
  "persisted (w\<lparr>uploadInterval := u\<rparr>) = persisted w"
  "persisted (w\<lparr>writes := ws\<rparr>) = persisted w"
  "persisted (w\<lparr>getFails := g\<rparr>) = persisted w"
  "persisted (w\<lparr>setFails := g\<rparr>) = persisted w"
  "persisted (w\<lparr>item := Some (Serialized events)\<rparr>) = events"
  by (simp_all add: persisted_def)

lemma setItem_healthy:
  "\<not> setFails w \<Longrightarrow>
   setItem w events
     = (Resolved (), w\<lparr>item := Some (Serialized events), writes := writes w @ [events]\<rparr>)"
  by (simp add: setItem_def Let_def)

lemma setItem_failing:
  "setFails w \<Longrightarrow> setItem w events = (Rejected StorageError, w\<lparr>writes := writes w @ [events]\<rparr>)"
  by (simp add: setItem_def Let_def)


lemma requests_setItem: "requests (snd (setItem w events)) = requests w"
  by (simp add: setItem_def Let_def)

lemma trim_newest:
  "(if length xs + 1 > 1000 then splice 0 (length xs + 1 - 1000) (xs @ [e]) else xs @ [e])
     = newest 1000 (xs @ [e])"
  by (simp add: splice_def newest_def)

lemma persisted_saveEvent:
  "persisted (snd (saveEvent cfg w st event))
     = (if setFails w then persisted w
        else if length (getStoredEvents w) + 1 > 1000
             then splice 0 (length (getStoredEvents w) + 1 - 1000)
                    (getStoredEvents w @ [newEvent cfg st event])
             else getStoredEvents w @ [newEvent cfg st event])"
  by (simp add: saveEvent_def Let_def setItem_def tryUpload_def persisted_fields)

lemma saveEvent_newest:
  "saveEvent cfg w st event
     = (case setItem w (newest 1000 (getStoredEvents w @ [newEvent cfg st event])) of
          (Resolved u, w') \<Rightarrow> (Resolved (), tryUpload w')
        | (Rejected err, w') \<Rightarrow> (Resolved (), w'))"
  by (simp add: saveEvent_def Let_def splice_def newest_def)

lemma last_newest: "0 < n \<Longrightarrow> last (newest n (xs @ [e])) = e"
  by (simp add: newest_def)

section \<open>A flush of the empty store\<close>

text \<open>
  Claim C6. Whenever \<open>uploadEvents\<close> runs while the store reads as empty, the call
  returns (its promise resolves, with no value) and leaves the whole state as it was:
  the request log is unchanged, so no network call was made, and the storage item is
  unchanged, so the store was not written.
\<close>

theorem uploadEvents_empty_store:
  "getStoredEvents w = [] \<Longrightarrow> uploadEvents cfg en w = Some (Resolved (), w)"
  by (simp add: uploadEvents_def Let_def getStoredEvents_fields)

theorem uploadEvents_empty_store_witness:
  "getStoredEvents initial = [] \<and> uploadEvents defaultConfig failFirst initial = Some (Resolved (), initial)"
  using uploadEvents_empty_store [of initial defaultConfig failFirst]
  by (simp add: getStoredEvents_def initial_def)

section \<open>Reads that fail\<close>

text \<open>
  Claim C10. If the read of the persisted collection fails (\<open>getItem\<close> rejects, or the
  item does not parse), \<open>getStoredEvents\<close> returns the empty list. A \<open>saveEvent\<close> in that
  situation whose write goes through then returns normally and persists the list that
  holds the new event only: whatever was queued before is gone.
\<close>

theorem getStoredEvents_read_failure:
  assumes "getFails w \<or> item w = Some Unparseable"
  shows "getStoredEvents w = [] \<and>
         (\<not> setFails w \<longrightarrow>
            fst (saveEvent cfg w st event) = Resolved () \<and>
            item (snd (saveEvent cfg w st event)) = Some (Serialized [newEvent cfg st event]))"
proof -
  from assms have e: "getStoredEvents w = []"
    by (auto simp: getStoredEvents_def)
  show ?thesis
    by (simp add: e saveEvent_def Let_def setItem_def tryUpload_def)
qed

theorem getStoredEvents_read_failure_witness:
  "getFails ((store [exampleEvent ''a'', exampleEvent ''b''])\<lparr>getFails := True\<rparr>) \<and>
   \<not> setFails ((store [exampleEvent ''a'', exampleEvent ''b''])\<lparr>getFails := True\<rparr>) \<and>
   persisted ((store [exampleEvent ''a'', exampleEvent ''b''])\<lparr>getFails := True\<rparr>)
     = [exampleEvent ''a'', exampleEvent ''b''] \<and>
   getStoredEvents ((store [exampleEvent ''a'', exampleEvent ''b''])\<lparr>getFails := True\<rparr>) = [] \<and>
   item (snd (saveEvent defaultConfig ((store [exampleEvent ''a'', exampleEvent ''b''])\<lparr>getFails := True\<rparr>)
                exampleStamp (crash, JNull)))
     = Some (Serialized [newEvent defaultConfig exampleStamp (crash, JNull)])"
  using getStoredEvents_read_failure
          [of "(store [exampleEvent ''a'', exampleEvent ''b''])\<lparr>getFails := True\<rparr>"
              defaultConfig exampleStamp "(crash, JNull)"]
  by (simp add: store_def initial_def persisted_def)

section \<open>Writes that fail\<close>

text \<open>
  Claim C9, as the code has it. If the write to the persistence medium fails during
  \<open>saveEvent\<close>, the call hands the list to \<open>setItem\<close> once and not again (it does not
  retry), the storage item is as before, so the event is not enqueued, and the flag,
  the timer and the request log are as before, so no upload is scheduled. The error is
  caught inside \<open>saveEvent\<close>: the call returns normally, and no error reaches the caller.
\<close>

theorem saveEvent_write_failure:
  "setFails w \<Longrightarrow>
   saveEvent cfg w st event
     = (Resolved (),
        w\<lparr>writes := writes w @ [newest 1000 (getStoredEvents w @ [newEvent cfg st event])]\<rparr>)"
  by (simp add: saveEvent_newest setItem_failing)

theorem saveEvent_write_failure_witness:
  "setFails (initial\<lparr>setFails := True\<rparr>) \<and>
   saveEvent defaultConfig (initial\<lparr>setFails := True\<rparr>) exampleStamp (crash, JNull)
     = (Resolved (),
        initial\<lparr>setFails := True,
                writes := [[newEvent defaultConfig exampleStamp (crash, JNull)]]\<rparr>)"
proof -
  have g: "getStoredEvents (initial\<lparr>setFails := True\<rparr>) = []"
    by (simp add: getStoredEvents_def initial_def)
  show ?thesis
    using saveEvent_write_failure
            [of "initial\<lparr>setFails := True\<rparr>" defaultConfig exampleStamp "(crash, JNull)"]
    by (simp add: g newest_def, simp add: initial_def)
qed

text \<open>
  The claim as the specification states it asks for a \<open>StorageError\<close> reported to the
  caller. With the medium unavailable for reading and writing, the promise of
  \<open>saveEvent\<close> resolves; it does not reject with \<open>StorageError\<close>.
\<close>

theorem saveEvent_reports_no_error:
  "fst (saveEvent defaultConfig (initial\<lparr>getFails := True, setFails := True\<rparr>)
          exampleStamp (crash, JNull)) = Resolved () \<and>
   fst (saveEvent defaultConfig (initial\<lparr>getFails := True, setFails := True\<rparr>)
          exampleStamp (crash, JNull)) \<noteq> Rejected StorageError"
  by (simp add: saveEvent_def Let_def setItem_def getStoredEvents_def initial_def)

section \<open>A delivered batch\<close>

text \<open>
  Claim C5, as the code has it. When the request of a batch is answered with a status
  from 200 to 299 and the storage can be read and written, \<open>uploadBatch\<close> succeeds and
  the stored list afterwards is the list before without the events whose id is an id of
  the batch: none of the batch's ids is left, and the remaining events are the same
  records in the same order.
\<close>

theorem uploadBatch_success_removes_batch:
  assumes "fetch en (length (requests w)) = Response status"
    and "200 \<le> status" and "status \<le> 299"
    and "\<not> getFails w" and "\<not> setFails w"
  shows "fst (uploadBatch cfg en w batch) = Resolved () \<and>
         persisted (snd (uploadBatch cfg en w batch))
           = filter (\<lambda>e. id' e \<notin> set (map id' batch)) (persisted w) \<and>
         set (map id' (persisted (snd (uploadBatch cfg en w batch)))) \<inter> set (map id' batch) = {}"
proof -
  let ?w1 = "w\<lparr>requests := requests w @ [batchRequest cfg (dateNow en (length (requests w))) batch]\<rparr>"
  let ?rest = "filter (\<lambda>e. id' e \<notin> set (map id' batch)) (persisted w)"
  have r: "removeUploadedEvents ?w1 batch
             = (Resolved (), ?w1\<lparr>item := Some (Serialized ?rest), writes := writes w @ [?rest]\<rparr>)"
    using assms(4,5)
    by (simp add: removeUploadedEvents_def Let_def setItem_def getStoredEvents_healthy
        persisted_fields)
  have u: "uploadBatch cfg en w batch
             = (Resolved (), ?w1\<lparr>item := Some (Serialized ?rest), writes := writes w @ [?rest]\<rparr>)"
    using assms(1-3) by (simp add: uploadBatch_def Let_def ok_def r)
  show ?thesis
    by (auto simp: u persisted_fields)
qed

theorem uploadBatch_success_removes_batch_witness:
  "fetch acceptAll (length (requests (store [exampleEvent ''a'', exampleEvent ''b'', exampleEvent ''c''])))
     = Response 204 \<and>
   \<not> getFails (store [exampleEvent ''a'', exampleEvent ''b'', exampleEvent ''c'']) \<and>
   \<not> setFails (store [exampleEvent ''a'', exampleEvent ''b'', exampleEvent ''c'']) \<and>
   persisted (snd (uploadBatch defaultConfig acceptAll
       (store [exampleEvent ''a'', exampleEvent ''b'', exampleEvent ''c''])
       [exampleEvent ''a'', exampleEvent ''c'']))
     = [exampleEvent ''b'']"
proof -
  let ?w = "store [exampleEvent ''a'', exampleEvent ''b'', exampleEvent ''c'']"
  have f: "fetch acceptAll (length (requests ?w)) = Response 204"
    by (simp add: acceptAll_def)
  have g: "\<not> getFails ?w" "\<not> setFails ?w"
    by (simp_all add: store_def initial_def)
  have p: "persisted ?w = [exampleEvent ''a'', exampleEvent ''b'', exampleEvent ''c'']"
    by (simp add: store_def persisted_def)
  have t: "fst (uploadBatch defaultConfig acceptAll ?w [exampleEvent ''a'', exampleEvent ''c''])
             = Resolved () \<and>
           persisted (snd (uploadBatch defaultConfig acceptAll ?w [exampleEvent ''a'', exampleEvent ''c'']))
             = filter (\<lambda>e. id' e \<notin> set (map id' [exampleEvent ''a'', exampleEvent ''c'']))
                 (persisted ?w) \<and>
           set (map id' (persisted (snd (uploadBatch defaultConfig acceptAll ?w
                  [exampleEvent ''a'', exampleEvent ''c''])))) \<inter>
             set (map id' [exampleEvent ''a'', exampleEvent ''c'']) = {}"
    by (rule uploadBatch_success_removes_batch [OF f _ _ g]) simp_all
  then have e: "persisted (snd (uploadBatch defaultConfig acceptAll ?w
                   [exampleEvent ''a'', exampleEvent ''c'']))
                  = filter (\<lambda>e. id' e \<notin> set (map id' [exampleEvent ''a'', exampleEvent ''c'']))
                      (persisted ?w)"
    by (rule conjunct1 [OF conjunct2])
  show ?thesis
    unfolding e p using f g by (simp add: exampleEvent_def)
qed

text \<open>
  The claim as the specification states it holds for every batch with a 2xx answer. With
  three stored events, a batch of the first one, an answer of status 204 and a read of
  the storage that is rejected, \<open>uploadBatch\<close> succeeds and writes the empty list: the
  two events that are not in the batch are removed as well.
\<close>

theorem uploadBatch_read_failure_empties_store:
  "fetch acceptAll 0 = Response 204 \<and> ok 204 \<and>
   persisted ((store [exampleEvent ''a'', exampleEvent ''b'', exampleEvent ''c''])\<lparr>getFails := True\<rparr>)
     = [exampleEvent ''a'', exampleEvent ''b'', exampleEvent ''c''] \<and>
   fst (uploadBatch defaultConfig acceptAll
          ((store [exampleEvent ''a'', exampleEvent ''b'', exampleEvent ''c''])\<lparr>getFails := True\<rparr>)
          [exampleEvent ''a'']) = Resolved () \<and>
   persisted (snd (uploadBatch defaultConfig acceptAll
          ((store [exampleEvent ''a'', exampleEvent ''b'', exampleEvent ''c''])\<lparr>getFails := True\<rparr>)
          [exampleEvent ''a''])) = []"
  by (simp add: uploadBatch_def Let_def removeUploadedEvents_def setItem_def getStoredEvents_def
      store_def initial_def persisted_def acceptAll_def ok_def)

section \<open>The request of a batch\<close>

lemma requests_handleUploadFailure: "requests (snd (handleUploadFailure w batch)) = requests w"
  by (simp add: handleUploadFailure_def requests_setItem)

lemma requests_removeUploadedEvents: "requests (snd (removeUploadedEvents w batch)) = requests w"
  by (simp add: removeUploadedEvents_def Let_def requests_setItem)

lemma requests_uploadBatch:
  "requests (snd (uploadBatch cfg en w batch))
     = requests w @ [batchRequest cfg (dateNow en (length (requests w))) batch]"
proof -
  let ?w1 = "w\<lparr>requests := requests w @ [batchRequest cfg (dateNow en (length (requests w))) batch]\<rparr>"
  have a: "requests (snd (handleUploadFailure ?w1 batch)) = requests ?w1"
    by (rule requests_handleUploadFailure)
  have b: "requests (snd (removeUploadedEvents ?w1 batch)) = requests ?w1"
    by (rule requests_removeUploadedEvents)
  obtain p w2 where r: "removeUploadedEvents ?w1 batch = (p, w2)"
    by (cases "removeUploadedEvents ?w1 batch")
  with b have w2: "requests w2 = requests ?w1" by simp
  have c: "requests (snd (handleUploadFailure w2 batch)) = requests ?w1"
    by (simp add: requests_handleUploadFailure w2)
  show ?thesis
    using a c w2
    by (cases "fetch en (length (requests w))"; cases p)
       (simp_all add: uploadBatch_def Let_def r)
qed

text \<open>
  Claim C7. A call of \<open>uploadBatch\<close> hands exactly one request to \<open>fetch\<close>. It is a POST
  to the configured server URL. Its headers say \<open>Content-Type: application/json\<close> and
  carry \<open>Authorization: Bearer <apiKey>\<close> exactly when an API key is configured, which in
  the code means a key that is present and not the empty string. Its body is the JSON
  object with the key \<open>events\<close>, the batch's events in order, each with the fields id,
  timestamp, type, data, retryCount and maxRetries, and the key \<open>timestamp\<close>, the clock
  reading taken for this request.
\<close>

theorem uploadBatch_sends_one_post:
  "requests (snd (uploadBatch cfg en w batch))
     = requests w @ [batchRequest cfg (dateNow en (length (requests w))) batch] \<and>
   method (batchRequest cfg now batch) = ''POST'' \<and>
   url (batchRequest cfg now batch) = serverUrl cfg \<and>
   map_of (headers (batchRequest cfg now batch)) ''Content-Type'' = Some ''application/json'' \<and>
   map_of (headers (batchRequest cfg now batch)) ''Authorization''
     = (case apiKey cfg of
          None \<Rightarrow> None
        | Some key \<Rightarrow> if key = [] then None else Some (''Bearer '' @ key)) \<and>
   body (batchRequest cfg now batch)
     = JObj [(''events'', JArr (map eventJSON batch)), (''timestamp'', JNum now)] \<and>
   (\<forall>e. field (eventJSON e) ''id'' = Some (JStr (id' e)) \<and>
        field (eventJSON e) ''timestamp'' = Some (JNum (timestamp e)) \<and>
        field (eventJSON e) ''type'' = Some (JStr (typeName (type e))) \<and>
        field (eventJSON e) ''data'' = Some (data e) \<and>
        field (eventJSON e) ''retryCount'' = Some (JNum (retryCount e)) \<and>
        field (eventJSON e) ''maxRetries'' = Some (JNum (maxRetries e)))"
proof -
  have h: "map_of (headers (batchRequest cfg now batch)) ''Authorization''
     = (case apiKey cfg of
          None \<Rightarrow> None
        | Some key \<Rightarrow> if key = [] then None else Some (''Bearer '' @ key))"
    by (simp add: batchRequest_def split: option.splits)
  have f: "\<forall>e. field (eventJSON e) ''id'' = Some (JStr (id' e)) \<and>
        field (eventJSON e) ''timestamp'' = Some (JNum (timestamp e)) \<and>
        field (eventJSON e) ''type'' = Some (JStr (typeName (type e))) \<and>
        field (eventJSON e) ''data'' = Some (data e) \<and>
        field (eventJSON e) ''retryCount'' = Some (JNum (retryCount e)) \<and>
        field (eventJSON e) ''maxRetries'' = Some (JNum (maxRetries e))"
    by (simp add: field_def eventJSON_def)
  have rest: "method (batchRequest cfg now batch) = ''POST'' \<and>
     url (batchRequest cfg now batch) = serverUrl cfg \<and>
     map_of (headers (batchRequest cfg now batch)) ''Content-Type'' = Some ''application/json'' \<and>
     body (batchRequest cfg now batch)
       = JObj [(''events'', JArr (map eventJSON batch)), (''timestamp'', JNum now)]"
    by (simp add: batchRequest_def)
  show ?thesis
    using requests_uploadBatch [of cfg en w batch] h f rest by blast
qed

theorem uploadBatch_sends_one_post_witness:
  "requests (snd (uploadBatch (defaultConfig\<lparr>apiKey := Some ''k1''\<rparr>) failFirst
                    (store [exampleEvent ''a'']) [exampleEvent ''a'']))
     = [\<lparr>method = ''POST'', url = ''https://your-server.com/upload'',
         headers = [(''Content-Type'', ''application/json''), (''Authorization'', ''Bearer k1'')],
         body = JObj [(''events'',
                       JArr [JObj [(''id'', JStr ''a''), (''timestamp'', JNum 0),
                                   (''retryCount'', JNum 0), (''maxRetries'', JNum 3),
                                   (''type'', JStr ''custom''), (''data'', JNull)]]),
                      (''timestamp'', JNum 1700000000000)]\<rparr>]"
  using uploadBatch_sends_one_post
          [of "defaultConfig\<lparr>apiKey := Some ''k1''\<rparr>" failFirst "store [exampleEvent ''a'']"
              "[exampleEvent ''a'']" 0]
  by (simp add: store_def initial_def batchRequest_def defaultConfig_def failFirst_def
      eventJSON_def exampleEvent_def)

section \<open>The loop of handleUploadFailure\<close>

lemma splice_Suc: "splice (Suc i) (Suc 0) (x # xs) = x # splice i (Suc 0) xs"
  by (simp add: splice_def)

lemma failureStep_Nil: "failureStep f [] = []"
  by (simp add: failureStep_def)

lemma failureStep_hit:
  "id' e = id' f \<Longrightarrow>
   failureStep f (e # es) =
     (if retryCount e + 1 \<ge> maxRetries e then es else e\<lparr>retryCount := retryCount e + 1\<rparr> # es)"
  by (simp add: failureStep_def splice_def)

lemma failureStep_miss:
  "id' e \<noteq> id' f \<Longrightarrow> failureStep f (e # es) = e # failureStep f es"
  by (cases "findIndex (\<lambda>e. id' e = id' f) es")
     (simp_all add: failureStep_def Let_def splice_Suc)

lemma failureStep_absent: "id' f \<notin> id' ` set es \<Longrightarrow> failureStep f es = es"
  by (induction es) (auto simp: failureStep_Nil failureStep_miss)

lemma failureStep_ids: "set (map id' (failureStep f es)) \<subseteq> set (map id' es)"
proof (induction es)
  case Nil
  show ?case by (simp add: failureStep_Nil)
next
  case (Cons e es)
  show ?case
  proof (cases "id' e = id' f")
    case True
    then show ?thesis by (auto simp: failureStep_hit)
  next
    case False
    with Cons show ?thesis by (auto simp: failureStep_miss)
  qed
qed

lemma failureStep_distinct:
  "distinct (map id' es) \<Longrightarrow> distinct (map id' (failureStep f es))"
proof (induction es)
  case Nil
  show ?case by (simp add: failureStep_Nil)
next
  case (Cons e es)
  show ?case
  proof (cases "id' e = id' f")
    case True
    with Cons.prems show ?thesis by (auto simp: failureStep_hit)
  next
    case False
    with Cons failureStep_ids [of f es] show ?thesis
      by (auto simp: failureStep_miss)
  qed
qed

lemma map_filter_Cons:
  "List.map_filter g (x # xs) = (case g x of None \<Rightarrow> List.map_filter g xs | Some y \<Rightarrow> y # List.map_filter g xs)"
  by (simp add: List.map_filter_def split: option.splits)

lemma retryOrEvict_hit:
  "id' e \<in> S \<Longrightarrow>
   retryOrEvict S e =
     (if retryCount e + 1 \<ge> maxRetries e then None else Some (e\<lparr>retryCount := retryCount e + 1\<rparr>))"
  by (simp add: retryOrEvict_def)

lemma retryOrEvict_miss: "id' e \<notin> S \<Longrightarrow> retryOrEvict S e = Some e"
  by (simp add: retryOrEvict_def)

lemma retryOrEvict_absent:
  "ids \<inter> id' ` set es = {} \<Longrightarrow> List.map_filter (retryOrEvict ids) es = es"
  by (induction es) (auto simp: map_filter_Cons retryOrEvict_def List.map_filter_simps)

lemma failureStep_retryOrEvict:
  "distinct (map id' es) \<Longrightarrow> failureStep f es = List.map_filter (retryOrEvict {id' f}) es"
proof (induction es)
  case Nil
  show ?case by (simp add: failureStep_Nil List.map_filter_simps)
next
  case (Cons e es)
  show ?case
  proof (cases "id' e = id' f")
    case True
    with Cons.prems have "{id' f} \<inter> id' ` set es = {}" by auto
    then have "List.map_filter (retryOrEvict {id' f}) es = es" by (rule retryOrEvict_absent)
    with True show ?thesis
      by (simp add: failureStep_hit map_filter_Cons retryOrEvict_hit)
  next
    case False
    with Cons show ?thesis
      by (simp add: failureStep_miss map_filter_Cons retryOrEvict_miss)
  qed
qed

lemma retryOrEvict_compose:
  assumes "x \<notin> S"
  shows "List.map_filter (retryOrEvict S) (List.map_filter (retryOrEvict {x}) es)
           = List.map_filter (retryOrEvict (insert x S)) es"
  using assms by (induction es) (auto simp: map_filter_Cons retryOrEvict_def List.map_filter_simps)

lemma fold_failureStep_retryOrEvict:
  "distinct (map id' es) \<Longrightarrow> distinct (map id' batch) \<Longrightarrow>
   fold failureStep batch es = List.map_filter (retryOrEvict (set (map id' batch))) es"
proof (induction batch arbitrary: es)
  case Nil
  have "List.map_filter (retryOrEvict {}) es = es"
    by (rule retryOrEvict_absent) simp
  then show ?case by simp
next
  case (Cons f fs)
  from Cons.prems have nin: "id' f \<notin> set (map id' fs)" and dfs: "distinct (map id' fs)"
    by auto
  have "fold failureStep (f # fs) es = fold failureStep fs (failureStep f es)" by simp
  also have "\<dots> = List.map_filter (retryOrEvict (set (map id' fs))) (failureStep f es)"
    using Cons.IH [OF failureStep_distinct [OF Cons.prems(1)] dfs] .
  also have "\<dots> = List.map_filter (retryOrEvict (set (map id' fs)))
                     (List.map_filter (retryOrEvict {id' f}) es)"
    by (simp add: failureStep_retryOrEvict [OF Cons.prems(1)])
  also have "\<dots> = List.map_filter (retryOrEvict (insert (id' f) (set (map id' fs)))) es"
    using nin by (rule retryOrEvict_compose)
  finally show ?case by simp
qed







section \<open>Retry accounting after a failed batch\<close>

text \<open>
  Claim C3, as the code has it. Let the storage be readable and writable, and let the ids
  be unique in the store and in the batch (the data model's invariant; a batch is a slice
  of a snapshot of the store). Then \<open>handleUploadFailure\<close> succeeds with one write that
  rewrites the store position by position: an event whose id is in the batch gets
  \<open>retryCount + 1\<close>, and is dropped in the same write when that count reaches or exceeds
  the event's own \<open>maxRetries\<close>; every other event, and every event below its limit,
  stays where it was relative to the others. The limit is the event's field: the
  operation does not read the configuration, and the field of an event is the
  configuration's \<open>maxRetries\<close> of the \<open>saveEvent\<close> that stored it.
\<close>

theorem handleUploadFailure_retry_accounting:
  assumes "\<not> getFails w" and "\<not> setFails w"
    and "distinct (map id' (persisted w))" and "distinct (map id' batch)"
  shows "handleUploadFailure w batch
           = (Resolved (),
              w\<lparr>item := Some (Serialized
                   (List.map_filter (retryOrEvict (set (map id' batch))) (persisted w))),
                writes := writes w @
                   [List.map_filter (retryOrEvict (set (map id' batch))) (persisted w)]\<rparr>) \<and>
         maxRetries (last (persisted (snd (saveEvent cfg w st event))))
           = UploadConfig.maxRetries cfg"
proof -
  have h: "handleUploadFailure w batch
           = (Resolved (),
              w\<lparr>item := Some (Serialized
                   (List.map_filter (retryOrEvict (set (map id' batch))) (persisted w))),
                writes := writes w @
                   [List.map_filter (retryOrEvict (set (map id' batch))) (persisted w)]\<rparr>)"
    using assms
    by (simp add: handleUploadFailure_def getStoredEvents_healthy setItem_healthy
        fold_failureStep_retryOrEvict)
  have "persisted (snd (saveEvent cfg w st event))
          = newest 1000 (getStoredEvents w @ [newEvent cfg st event])"
    using assms(2) by (simp add: saveEvent_newest setItem_healthy tryUpload_def persisted_fields)
  then have l: "last (persisted (snd (saveEvent cfg w st event))) = newEvent cfg st event"
    by (simp add: last_newest)
  show ?thesis
    by (simp add: h l, simp add: newEvent_def)
qed

theorem handleUploadFailure_retry_accounting_witness:
  "\<not> getFails (store [exampleEvent ''a'', (exampleEvent ''b'')\<lparr>retryCount := 2\<rparr>, exampleEvent ''c'']) \<and>
   \<not> setFails (store [exampleEvent ''a'', (exampleEvent ''b'')\<lparr>retryCount := 2\<rparr>, exampleEvent ''c'']) \<and>
   distinct (map id' [exampleEvent ''b'', exampleEvent ''a'']) \<and>
   handleUploadFailure (store [exampleEvent ''a'', (exampleEvent ''b'')\<lparr>retryCount := 2\<rparr>, exampleEvent ''c''])
       [exampleEvent ''b'', exampleEvent ''a'']
     = (Resolved (),
        (store [(exampleEvent ''a'')\<lparr>retryCount := 1\<rparr>, exampleEvent ''c''])
          \<lparr>writes := [[(exampleEvent ''a'')\<lparr>retryCount := 1\<rparr>, exampleEvent ''c'']]\<rparr>)"
  using handleUploadFailure_retry_accounting
          [of "store [exampleEvent ''a'', (exampleEvent ''b'')\<lparr>retryCount := 2\<rparr>, exampleEvent ''c'']"
              "[exampleEvent ''b'', exampleEvent ''a'']" defaultConfig exampleStamp "(crash, JNull)"]
  by (simp add: store_def initial_def persisted_def exampleEvent_def map_filter_Cons
      retryOrEvict_def List.map_filter_simps)

text \<open>
  The claim as the specification states it holds after every failure handling. With two
  stored events below their limit, a failed batch of the first one, and a read of the
  storage that is rejected, \<open>handleUploadFailure\<close> succeeds and writes the empty list:
  the event of the batch does not remain with one more retry, and the other event is
  removed as well.
\<close>

theorem handleUploadFailure_read_failure_empties_store:
  "persisted ((store [exampleEvent ''a'', exampleEvent ''b''])\<lparr>getFails := True\<rparr>)
     = [exampleEvent ''a'', exampleEvent ''b''] \<and>
   retryCount (exampleEvent ''a'') + 1 < maxRetries (exampleEvent ''a'') \<and>
   fst (handleUploadFailure ((store [exampleEvent ''a'', exampleEvent ''b''])\<lparr>getFails := True\<rparr>)
          [exampleEvent ''a'']) = Resolved () \<and>
   persisted (snd (handleUploadFailure
          ((store [exampleEvent ''a'', exampleEvent ''b''])\<lparr>getFails := True\<rparr>)
          [exampleEvent ''a''])) = []"
  by (simp add: handleUploadFailure_def setItem_def getStoredEvents_def failureStep_def
      store_def initial_def persisted_def exampleEvent_def)

section \<open>The retry count stays within the limit\<close>










section \<open>The batches of a run\<close>

lemma slice_chunk:
  assumes "0 \<le> i" "i < int (length xs)" "0 < b"
  shows "slice xs i (i + b) = take (nat b) (drop (nat i) xs)"
proof -
  let ?n = "int (length xs)"
  have "take (nat (min (i + b) ?n - i)) (drop (nat i) xs) = take (nat b) (drop (nat i) xs)"
  proof (cases "i + b \<le> ?n")
    case True
    then show ?thesis by (simp add: min_def)
  next
    case False
    with assms have "nat (min (i + b) ?n - i) = length (drop (nat i) xs)"
      by (simp add: min_def nat_diff_distrib')
    moreover from False assms have "length (drop (nat i) xs) \<le> nat b" by simp
    ultimately show ?thesis by simp
  qed
  with assms show ?thesis by (simp add: slice_def Let_def)
qed

text \<open>With a positive batch size the loop of \<open>createBatches\<close> ends, and returns the
  consecutive pieces of the list.\<close>

lemma createBatchesFrom_chunks:
  assumes "0 < b"
  shows "0 \<le> i \<Longrightarrow> createBatchesFrom xs b i acc = Some (acc @ chunks (nat b) (drop (nat i) xs))"
proof (induction "length xs - nat i" arbitrary: i acc rule: less_induct)
  case less
  show ?case
  proof (cases "i < int (length xs)")
    case False
    then have "drop (nat i) xs = []" by simp
    with False show ?thesis
      by (subst createBatchesFrom.simps) (simp add: chunks.simps)
  next
    case True
    with less.prems assms have m: "length xs - nat (i + b) < length xs - nat i"
      by linarith
    have nz: "drop (nat i) xs \<noteq> []" using True less.prems by simp
    have d: "drop (nat b) (drop (nat i) xs) = drop (nat (i + b)) xs"
      using less.prems assms by (simp add: nat_add_distrib add.commute)
    have "createBatchesFrom xs b i acc
            = createBatchesFrom xs b (i + b) (acc @ [slice xs i (i + b)])"
      using True by (subst createBatchesFrom.simps) simp
    also have "\<dots> = Some ((acc @ [slice xs i (i + b)]) @ chunks (nat b) (drop (nat (i + b)) xs))"
      using less.hyps [OF m] less.prems assms by simp
    also have "\<dots> = Some (acc @ chunks (nat b) (drop (nat i) xs))"
      using nz assms d slice_chunk [OF less.prems True assms]
      by (subst (2) chunks.simps) simp
    finally show ?thesis .
  qed
qed

lemma createBatches_chunks: "0 < b \<Longrightarrow> createBatches xs b = Some (chunks (nat b) xs)"
  using createBatchesFrom_chunks [of b 0 xs "[]"] by (simp add: createBatches_def)

lemma chunks_not_empty: "0 < n \<Longrightarrow> xs \<noteq> [] \<Longrightarrow> chunks n xs \<noteq> []"
  by (subst chunks.simps) simp

lemma uploadBatch_healthy:
  assumes "\<not> getFails w" and "\<not> setFails w"
  shows "uploadBatch cfg en w batch
           = (Resolved (),
              w\<lparr>item := Some (Serialized (settle (fetch en (length (requests w))) batch (persisted w))),
                requests := requests w @ [batchRequest cfg (dateNow en (length (requests w))) batch],
                writes := writes w @ [settle (fetch en (length (requests w))) batch (persisted w)]\<rparr>)"
proof (cases "fetch en (length (requests w))")
  case NetworkFailure
  with assms show ?thesis
    by (simp add: uploadBatch_def Let_def handleUploadFailure_def setItem_def settle_def
        getStoredEvents_healthy persisted_fields)
next
  case (Response status)
  with assms show ?thesis
    by (simp add: uploadBatch_def Let_def handleUploadFailure_def removeUploadedEvents_def
        setItem_def settle_def getStoredEvents_healthy persisted_fields)
qed

lemma uploadBatches_healthy:
  "\<not> getFails w \<Longrightarrow> \<not> setFails w \<Longrightarrow>
   uploadBatches cfg en w batches
     = (Resolved (),
        if batches = [] then w
        else w\<lparr>item := Some (Serialized
                  (settleAll en (length (requests w)) batches (persisted w))),
               requests := requests w @ batchRequests cfg en (length (requests w)) batches,
               writes := writes w @ settleWrites en (length (requests w)) batches (persisted w)\<rparr>)"
proof (induction batches arbitrary: w)
  case Nil
  show ?case by simp
next
  case (Cons b bs)
  let ?w1 = "w\<lparr>item := Some (Serialized (settle (fetch en (length (requests w))) b (persisted w))),
                requests := requests w @ [batchRequest cfg (dateNow en (length (requests w))) b],
                writes := writes w @ [settle (fetch en (length (requests w))) b (persisted w)]\<rparr>"
  have u: "uploadBatch cfg en w b = (Resolved (), ?w1)"
    using Cons.prems by (rule uploadBatch_healthy)
  have g: "\<not> getFails ?w1" "\<not> setFails ?w1"
    using Cons.prems by simp_all
  show ?case
  proof (cases "bs = []")
    case True
    then show ?thesis by (simp add: u)
  next
    case False
    have "uploadBatches cfg en ?w1 bs
            = (Resolved (),
               ?w1\<lparr>item := Some (Serialized
                       (settleAll en (length (requests ?w1)) bs (persisted ?w1))),
                    requests := requests ?w1 @ batchRequests cfg en (length (requests ?w1)) bs,
                    writes := writes ?w1 @ settleWrites en (length (requests ?w1)) bs (persisted ?w1)\<rparr>)"
      using Cons.IH [OF g] False by simp
    then show ?thesis
      by (simp add: u persisted_fields)
  qed
qed

section \<open>A failed batch does not end the run\<close>

text \<open>
  Claim C1, as the code has it. Take a run of \<open>uploadEvents\<close> that gets past its guards
  (no run in progress, a non-empty store, the device online), with a positive batch size
  and a working storage. The run returns. It has sent one request for every batch of the
  snapshot, in order, whatever the earlier batches were answered; and the store has
  been written once for every batch, in order: for a batch that failed (a status outside 200
  to 299, or a rejected \<open>fetch\<close>) by the loop of \<open>handleUploadFailure\<close> over every event
  of that batch, for a delivered batch by the removal of its ids. A failed batch does
  not stop the run.
\<close>

theorem uploadEvents_attempts_every_batch:
  assumes "\<not> isUploading w" and "\<not> getFails w" and "\<not> setFails w"
    and "persisted w \<noteq> []" and "isOnline en" and "0 < batchSize cfg"
  shows "uploadEvents cfg en w
           = Some (Resolved (),
               w\<lparr>item := Some (Serialized
                    (settleAll en (length (requests w))
                       (chunks (nat (batchSize cfg)) (persisted w)) (persisted w))),
                 requests := requests w @
                    batchRequests cfg en (length (requests w))
                      (chunks (nat (batchSize cfg)) (persisted w)),
                 writes := writes w @
                    settleWrites en (length (requests w))
                      (chunks (nat (batchSize cfg)) (persisted w)) (persisted w)\<rparr>)"
proof -
  let ?w1 = "w\<lparr>isUploading := True\<rparr>"
  let ?bs = "chunks (nat (batchSize cfg)) (persisted w)"
  have e: "getStoredEvents ?w1 = persisted w"
    using assms(2) by (simp add: getStoredEvents_fields getStoredEvents_healthy)
  have c: "createBatches (persisted w) (batchSize cfg) = Some ?bs"
    using assms(6) by (rule createBatches_chunks)
  have ne: "?bs \<noteq> []"
    using assms(4,6) by (simp add: chunks_not_empty)
  have g: "\<not> getFails ?w1" "\<not> setFails ?w1"
    using assms(2,3) by simp_all
  have l: "uploadBatches cfg en ?w1 ?bs
             = (Resolved (),
                ?w1\<lparr>item := Some (Serialized (settleAll en (length (requests w)) ?bs (persisted w))),
                    requests := requests w @ batchRequests cfg en (length (requests w)) ?bs,
                    writes := writes w @ settleWrites en (length (requests w)) ?bs (persisted w)\<rparr>)"
    using uploadBatches_healthy [OF g, of cfg en ?bs] ne
    by (simp add: persisted_fields)
  show ?thesis
    using assms(1,4,5) by (simp add: uploadEvents_def Let_def e c l)
qed

theorem uploadEvents_attempts_every_batch_witness:
  "\<not> isUploading (store [exampleEvent ''a'', exampleEvent ''b'']) \<and>
   persisted (store [exampleEvent ''a'', exampleEvent ''b'']) \<noteq> [] \<and>
   isOnline failFirst \<and> 0 < batchSize (defaultConfig\<lparr>batchSize := 1\<rparr>) \<and>
   uploadEvents (defaultConfig\<lparr>batchSize := 1\<rparr>) failFirst (store [exampleEvent ''a'', exampleEvent ''b''])
     = Some (Resolved (),
         (store [exampleEvent ''a'', exampleEvent ''b''])
           \<lparr>item := Some (Serialized
              (settleAll failFirst 0 [[exampleEvent ''a''], [exampleEvent ''b'']]
                 [exampleEvent ''a'', exampleEvent ''b''])),
            requests := batchRequests (defaultConfig\<lparr>batchSize := 1\<rparr>) failFirst 0
                          [[exampleEvent ''a''], [exampleEvent ''b'']],
            writes := settleWrites failFirst 0 [[exampleEvent ''a''], [exampleEvent ''b'']]
                        [exampleEvent ''a'', exampleEvent ''b'']\<rparr>)"
proof -
  let ?w = "store [exampleEvent ''a'', exampleEvent ''b'']"
  let ?cfg = "defaultConfig\<lparr>batchSize := 1\<rparr>"
  have h: "\<not> isUploading ?w" "\<not> getFails ?w" "\<not> setFails ?w" "persisted ?w \<noteq> []"
    by (simp_all add: store_def initial_def persisted_def)
  have o: "isOnline failFirst"
    by (simp add: isOnline_def failFirst_def)
  have b: "0 < batchSize ?cfg"
    by simp
  have p: "persisted ?w = [exampleEvent ''a'', exampleEvent ''b'']" "requests ?w = []"
    "writes ?w = []"
    by (simp_all add: store_def initial_def persisted_def)
  have c: "chunks (Suc 0) [exampleEvent ''a'', exampleEvent ''b'']
             = [[exampleEvent ''a''], [exampleEvent ''b'']]"
    by (simp add: chunks.simps)
  show ?thesis
    using uploadEvents_attempts_every_batch [OF h o b] h(1,4) o b
    by (simp add: p c)
qed

text \<open>
  The claim as the specification states it has the run stop at the first failed batch.
  With two stored events, batch size 1, and a server that answers the first request
  with status 500 and the second with 200, the run sends both requests: the first
  event gets its retry increment, and the second event, which is in the later batch,
  is removed from the store in the same run.
\<close>

theorem uploadEvents_continues_after_failed_batch:
  "fetch failFirst 0 = Response 500 \<and> \<not> ok 500 \<and>
   createBatches [exampleEvent ''a'', exampleEvent ''b''] 1
     = Some [[exampleEvent ''a''], [exampleEvent ''b'']] \<and>
   uploadEvents (defaultConfig\<lparr>batchSize := 1\<rparr>) failFirst (store [exampleEvent ''a'', exampleEvent ''b''])
     = Some (Resolved (),
         (store [(exampleEvent ''a'')\<lparr>retryCount := 1\<rparr>])
           \<lparr>requests :=
              [batchRequest (defaultConfig\<lparr>batchSize := 1\<rparr>) 1700000000000 [exampleEvent ''a''],
               batchRequest (defaultConfig\<lparr>batchSize := 1\<rparr>) 1700000000001 [exampleEvent ''b'']],
            writes :=
              [[(exampleEvent ''a'')\<lparr>retryCount := 1\<rparr>, exampleEvent ''b''],
               [(exampleEvent ''a'')\<lparr>retryCount := 1\<rparr>]]\<rparr>)"
  by code_simp

section \<open>The capacity of the store\<close>

lemma newest_newest: "newest n (newest n xs @ ys) = newest n (xs @ ys)"
proof (cases "length xs \<le> n")
  case True
  then show ?thesis by (simp add: newest_def)
next
  case False
  then have l: "length (drop (length xs - n) xs) = n" by simp
  have "newest n (newest n xs @ ys)
          = drop (length ys) (drop (length xs - n) xs) @ drop (length ys - n) ys"
    using False by (simp add: newest_def)
  also have "\<dots> = drop (length xs + length ys - n) xs @ drop (length ys - n) ys"
    using False by (simp add: add.commute)
  also have "\<dots> = newest n (xs @ ys)"
    using False by (simp add: newest_def)
  finally show ?thesis .
qed

lemma length_newest: "length (newest n xs) \<le> n"
  by (simp add: newest_def)

lemma getStoredEvents_medium:
  "getStoredEvents (w\<lparr>getFails := g, setFails := s\<rparr>) = (if g then [] else persisted w)"
  by (simp add: getStoredEvents_def persisted_def split: option.splits stored.splits)

lemma persisted_saveCall:
  "persisted (saveCall cfg (g, s, st, event) w)
     = (if s then persisted w
        else newest 1000 ((if g then [] else persisted w) @ [newEvent cfg st event]))"
proof -
  let ?w = "w\<lparr>getFails := g, setFails := s\<rparr>"
  have "persisted (snd (saveEvent cfg ?w st event))
          = (if s then persisted w else newest 1000 (getStoredEvents ?w @ [newEvent cfg st event]))"
    unfolding persisted_saveEvent trim_newest by (simp add: persisted_fields)
  then show ?thesis
    by (simp add: saveCall_def getStoredEvents_medium)
qed

lemma length_saveCall:
  "length (persisted w) \<le> 1000 \<Longrightarrow> length (persisted (saveCall cfg c w)) \<le> 1000"
  by (cases c) (simp add: persisted_saveCall length_newest)

lemma length_saveEvents:
  "length (persisted w) \<le> 1000 \<Longrightarrow> length (persisted (saveEvents cfg w calls)) \<le> 1000"
  unfolding saveEvents_def
  by (induction calls arbitrary: w) (simp_all add: length_saveCall)

lemma healthy_saveCall:
  "healthy c \<Longrightarrow> persisted (saveCall cfg c w) = newest 1000 (persisted w @ [appended cfg c])"
  by (cases c) (simp add: persisted_saveCall healthy_def appended_def)

lemma healthy_saveEvents:
  "list_all healthy calls \<Longrightarrow> length (persisted w) \<le> 1000 \<Longrightarrow>
   persisted (saveEvents cfg w calls) = newest 1000 (persisted w @ map (appended cfg) calls)"
proof (induction calls arbitrary: w)
  case Nil
  then show ?case by (simp add: saveEvents_def newest_def)
next
  case (Cons c cs)
  let ?w1 = "saveCall cfg c w"
  have l: "length (persisted ?w1) \<le> 1000"
    using Cons.prems(2) by (rule length_saveCall)
  have h: "list_all healthy cs" "healthy c"
    using Cons.prems(1) by simp_all
  have "persisted (saveEvents cfg w (c # cs)) = persisted (saveEvents cfg ?w1 cs)"
    by (simp add: saveEvents_def)
  also have "\<dots> = newest 1000 (persisted ?w1 @ map (appended cfg) cs)"
    using Cons.IH [OF h(1) l] .
  also have "\<dots> = newest 1000 (newest 1000 (persisted w @ [appended cfg c]) @ map (appended cfg) cs)"
    by (simp add: healthy_saveCall [OF h(2)])
  also have "\<dots> = newest 1000 ((persisted w @ [appended cfg c]) @ map (appended cfg) cs)"
    by (rule newest_newest)
  finally show ?case by simp
qed

text \<open>
  Claim C2, as the code has it. Start from a store with at most 1000 events and make any
  sequence of calls of \<open>saveEvent\<close>, one after the other. The store then holds at most
  1000 events, whatever the availability of the medium at each call. When the storage
  can be read and written at every call, the stored list is the list of the events
  stored before followed by the appended events, in enqueue order, without as many
  events at its front as exceed 1000.
\<close>

theorem saveEvents_capacity:
  assumes "length (persisted w) \<le> 1000"
  shows "length (persisted (saveEvents cfg w calls)) \<le> 1000 \<and>
         (list_all healthy calls \<longrightarrow>
            persisted (saveEvents cfg w calls)
              = drop (length (persisted w) + length calls - 1000)
                  (persisted w @ map (appended cfg) calls))"
  using assms length_saveEvents [OF assms] healthy_saveEvents [of calls w cfg]
  by (simp add: newest_def)

theorem saveEvents_capacity_witness:
  "length (persisted (store (replicate 1000 (exampleEvent ''a'')))) \<le> 1000 \<and>
   list_all healthy [(False, False, exampleStamp, (crash, JNull)),
                     (False, False, exampleStamp, (custom, JNull))] \<and>
   persisted (saveEvents defaultConfig (store (replicate 1000 (exampleEvent ''a'')))
                [(False, False, exampleStamp, (crash, JNull)),
                 (False, False, exampleStamp, (custom, JNull))])
     = replicate 998 (exampleEvent ''a'') @
       [newEvent defaultConfig exampleStamp (crash, JNull),
        newEvent defaultConfig exampleStamp (custom, JNull)]"
proof -
  let ?w = "store (replicate 1000 (exampleEvent ''a''))"
  have p: "persisted ?w = replicate 1000 (exampleEvent ''a'')"
    by (simp add: store_def persisted_def)
  have l: "length (persisted ?w) \<le> 1000"
    by (simp add: p)
  have h: "list_all healthy [(False, False, exampleStamp, (crash, JNull)),
                             (False, False, exampleStamp, (custom, JNull))]"
    by (simp add: healthy_def)
  show ?thesis
    using saveEvents_capacity [OF l, of defaultConfig
            "[(False, False, exampleStamp, (crash, JNull)),
              (False, False, exampleStamp, (custom, JNull))]"] l h
    by (simp add: p appended_def)
qed

text \<open>
  The claim as the specification states it holds for every sequence of appends. With two
  stored events and one call of \<open>saveEvent\<close> during which the read of the storage is
  rejected and the write goes through, the stored list afterwards is the new event
  alone, not the two stored events followed by the new one.
\<close>

theorem saveEvents_read_failure_drops_queue:
  "persisted (store [exampleEvent ''a'', exampleEvent ''b''])
     = [exampleEvent ''a'', exampleEvent ''b''] \<and>
   persisted (saveEvents defaultConfig (store [exampleEvent ''a'', exampleEvent ''b''])
                [(True, False, exampleStamp, (crash, JNull))])
     = [newEvent defaultConfig exampleStamp (crash, JNull)] \<and>
   persisted (saveEvents defaultConfig (store [exampleEvent ''a'', exampleEvent ''b''])
                [(True, False, exampleStamp, (crash, JNull))])
     \<noteq> [exampleEvent ''a'', exampleEvent ''b'', newEvent defaultConfig exampleStamp (crash, JNull)]"
  by (simp add: saveEvents_def persisted_saveCall newest_def, simp add: store_def persisted_def)

section \<open>Single flight\<close>

text \<open>
  Claim C8 asks that at most one upload run be in flight at any instant, and that a
  trigger arriving during a run start no second run. The guard of \<open>uploadEvents\<close> is
  there for this, but the code breaks it: when \<open>configureOfflineQueue\<close> runs while a run
  is suspended, the flag is cleared, and the next call of \<open>uploadEvents\<close> passes the
  guard. After a call, the reconfiguration and a second call, two runs are in flight.
\<close>

theorem uploadEvents_two_runs_in_flight:
  "interleaving (call (reconfigure (call idle))) \<and>
   inFlight (call idle) = 1 \<and>
   runs (call (reconfigure (call idle))) = [InFlight, InFlight] \<and>
   inFlight (call (reconfigure (call idle))) = 2"
proof -
  have "interleaving (call (reconfigure (call idle)))"
    by (intro interleaving.called interleaving.reconfigured interleaving.nothing)
  then show ?thesis
    by (simp add: call_def reconfigure_def idle_def inFlight_def)
qed

end
